theory Spec2Isabelle
  imports Complex_Main "HOL-Library.Sublist"
begin

section \<open>JavaScript values used by the batch engine\<close>

text \<open>
  A JavaScript string is modelled as the list of its code units, of type \<^typ>\<open>char\<close>: the
  code units below 256, that is Basic Latin and the Latin-1 Supplement. On these,
  \<open>toLowerCase\<close> maps the capital letters \<open>A\<close> to \<open>Z\<close> (U+0041 to U+005A) and the accented
  capitals U+00C0 to U+00DE (the multiplication sign U+00D7 excepted) to the small letter
  32 code units further, and leaves every other code unit alone. An optional field of an interface
  is an \<^typ>\<open>'a option\<close>, \<open>None\<close> standing for \<open>undefined\<close>.
\<close>

definition upper_letters :: string where
  "upper_letters =
     ''ABCDEFGHIJKLMNOPQRSTUVWXYZ'' @
     [CHR 0xC0, CHR 0xC1, CHR 0xC2, CHR 0xC3, CHR 0xC4, CHR 0xC5, CHR 0xC6, CHR 0xC7,
      CHR 0xC8, CHR 0xC9, CHR 0xCA, CHR 0xCB, CHR 0xCC, CHR 0xCD, CHR 0xCE, CHR 0xCF,
      CHR 0xD0, CHR 0xD1, CHR 0xD2, CHR 0xD3, CHR 0xD4, CHR 0xD5, CHR 0xD6, CHR 0xD8,
      CHR 0xD9, CHR 0xDA, CHR 0xDB, CHR 0xDC, CHR 0xDD, CHR 0xDE]"

definition lower_letters :: string where
  "lower_letters =
     ''abcdefghijklmnopqrstuvwxyz'' @
     [CHR 0xE0, CHR 0xE1, CHR 0xE2, CHR 0xE3, CHR 0xE4, CHR 0xE5, CHR 0xE6, CHR 0xE7,
      CHR 0xE8, CHR 0xE9, CHR 0xEA, CHR 0xEB, CHR 0xEC, CHR 0xED, CHR 0xEE, CHR 0xEF,
      CHR 0xF0, CHR 0xF1, CHR 0xF2, CHR 0xF3, CHR 0xF4, CHR 0xF5, CHR 0xF6, CHR 0xF8,
      CHR 0xF9, CHR 0xFA, CHR 0xFB, CHR 0xFC, CHR 0xFD, CHR 0xFE]"

definition lower_char :: "char \<Rightarrow> char" where
  "lower_char c =
     (case map_of (zip upper_letters lower_letters) c of
        Some l \<Rightarrow> l
      | None \<Rightarrow> c)"

definition toLowerCase :: "string \<Rightarrow> string" where
  "toLowerCase s = map lower_char s"

text \<open>\<open>s.includes(p)\<close>: \<open>p\<close> occurs in \<open>s\<close> as a contiguous run of characters.\<close>

fun includes_str :: "string \<Rightarrow> string \<Rightarrow> bool" where
  "includes_str [] p = (p = [])"
| "includes_str (c # cs) p = (prefix p (c # cs) \<or> includes_str cs p)"

text \<open>Truthiness of an optional string: \<open>undefined\<close> and \<open>''\<close> are falsy.\<close>

fun truthy :: "string option \<Rightarrow> bool" where
  "truthy None = False"
| "truthy (Some s) = (s \<noteq> [])"

text \<open>\<open>a || b\<close> on optional strings and \<open>a || d\<close> on optional numbers (0 is falsy).\<close>

definition or_str :: "string option \<Rightarrow> string option \<Rightarrow> string option" where
  "or_str a b = (if truthy a then a else b)"

fun or_num :: "int option \<Rightarrow> int \<Rightarrow> int" where
  "or_num None d = d"
| "or_num (Some v) d = (if v = 0 then d else v)"

text \<open>\<open>a ?? d\<close>: only \<open>undefined\<close> is replaced.\<close>

fun nullish :: "'a option \<Rightarrow> 'a \<Rightarrow> 'a" where
  "nullish None d = d"
| "nullish (Some v) d = v"

section \<open>Data model (types/batch.ts)\<close>

record BatchJobConfig =
  prompt :: string
  output_path :: "string option"
  model :: "string option"
  aspect_ratio :: "string option"
  resolution :: "string option"
  n_images :: "int option"  \<comment> \<open>the field \<open>n\<close>\<close>
  image_path :: "string option"
  image_base64 :: "string option"
  image_url :: "string option"

record RetryPolicy =
  max_retries :: "int option"
  retry_delay_ms :: "int option"
  retry_on_errors :: "string list option"

record BatchConfig =
  jobs :: "BatchJobConfig list"
  output_dir :: "string option"
  max_concurrent :: "int option"
  timeout :: "int option"
  retry_policy :: "RetryPolicy option"
  default_model :: "string option"
  default_resolution :: "string option"
  default_aspect_ratio :: "string option"

datatype job_status = Completed | Failed | Cancelled

record BatchJobResult =
  index :: nat
  result_prompt :: string  \<comment> \<open>the field \<open>prompt\<close>\<close>
  status :: job_status
  output_paths :: "string list option"
  error :: "string option"
  duration_ms :: "int option"
  revised_prompt :: "string option"
  is_edit :: "bool option"

section \<open>The Image Operation and the runtime, as seen by the engine\<close>

record GenerateImageParams =
  g_prompt :: string
  g_output_path :: string
  g_model :: "string option"
  g_n :: int
  g_aspect_ratio :: "string option"
  g_resolution :: "string option"

record EditImageParams =
  e_prompt :: string
  e_image_path :: "string option"
  e_image_base64 :: "string option"
  e_image_url :: "string option"
  e_output_path :: string
  e_model :: "string option"
  e_n :: int
  e_resolution :: "string option"

text \<open>
  \<open>generateImage\<close> and \<open>editImage\<close> return either the result text or an object with a
  \<open>content\<close> array. A rejected call carries the thrown value, of which the engine reads
  \<open>error.message\<close> and \<open>String(error)\<close>. A call may also never settle.
\<close>

datatype content_item = ContentItem (ctype: string) (ctext: "string option")

datatype op_result = TextResult string | ContentResult "content_item list" | OtherResult

datatype thrown = Thrown (message: "string option") (as_string: string)

datatype settle = Resolves op_result | Rejects thrown | NeverSettles

text \<open>
  The runtime gathers what the engine does not compute itself: the outcome of the
  \<open>k\<close>-th call of job \<open>i\<close> to the Image Operation, the regular-expression matches on a
  result text (\<open>None\<close> is \<open>null\<close>), \<open>trim\<close>, and the reading of \<open>Date.now()\<close> in job \<open>i\<close>
  once \<open>k\<close> calls have settled.
\<close>

record runtime =
  generateImage :: "nat \<Rightarrow> nat \<Rightarrow> GenerateImageParams \<Rightarrow> settle"
  editImage :: "nat \<Rightarrow> nat \<Rightarrow> EditImageParams \<Rightarrow> settle"
  match_paths :: "string \<Rightarrow> string list option"
  match_colon :: "string \<Rightarrow> string option"
  match_revised :: "string \<Rightarrow> string option"
  trim :: "string \<Rightarrow> string"
  clock :: "nat \<Rightarrow> nat \<Rightarrow> int"

section \<open>BatchManager.executeJob\<close>

definition isEditJob :: "BatchJobConfig \<Rightarrow> bool" where
  "isEditJob job = (truthy (image_path job) \<or> truthy (image_base64 job) \<or> truthy (image_url job))"

definition default_patterns :: "string list" where
  "default_patterns = [''rate_limit'', ''timeout'', ''429'', ''503'']"

definition retryPolicy_of :: "BatchConfig \<Rightarrow> RetryPolicy" where
  "retryPolicy_of config =
     (case retry_policy config of
        Some p \<Rightarrow> p
      | None \<Rightarrow> \<lparr>max_retries = Some 2, retry_delay_ms = Some 1000, retry_on_errors = None\<rparr>)"

definition maxRetries_of :: "BatchConfig \<Rightarrow> int" where
  "maxRetries_of config = nullish (max_retries (retryPolicy_of config)) 2"

definition retryDelay_of :: "BatchConfig \<Rightarrow> int" where
  "retryDelay_of config = nullish (retry_delay_ms (retryPolicy_of config)) 1000"

definition retryPatterns_of :: "BatchConfig \<Rightarrow> string list" where
  "retryPatterns_of config = nullish (retry_on_errors (retryPolicy_of config)) default_patterns"

text \<open>\<open>error.message || String(error)\<close>\<close>

definition error_text :: "thrown \<Rightarrow> string" where
  "error_text e = (if truthy (message e) then the (message e) else as_string e)"

text \<open>The expression bound to \<open>shouldRetry\<close> in the catch block.\<close>

definition shouldRetry :: "string \<Rightarrow> int \<Rightarrow> int \<Rightarrow> string list \<Rightarrow> bool" where
  "shouldRetry lastError attempt maxRetries retryPatterns =
     (attempt < maxRetries \<and>
      list_ex (\<lambda>pattern. includes_str (toLowerCase lastError) (toLowerCase pattern)) retryPatterns)"

definition call_operation ::
  "runtime \<Rightarrow> BatchJobConfig \<Rightarrow> nat \<Rightarrow> string \<Rightarrow> BatchConfig \<Rightarrow> nat \<Rightarrow> settle" where
  "call_operation rt job i outputPath config attempt =
     (if isEditJob job then
        editImage rt i attempt
          \<lparr>e_prompt = prompt job, e_image_path = image_path job,
           e_image_base64 = image_base64 job, e_image_url = image_url job,
           e_output_path = outputPath, e_model = or_str (model job) (default_model config),
           e_n = or_num (n_images job) 1,
           e_resolution = or_str (resolution job) (default_resolution config)\<rparr>
      else
        generateImage rt i attempt
          \<lparr>g_prompt = prompt job, g_output_path = outputPath,
           g_model = or_str (model job) (default_model config),
           g_n = or_num (n_images job) 1,
           g_aspect_ratio = or_str (aspect_ratio job) (default_aspect_ratio config),
           g_resolution = or_str (resolution job) (default_resolution config)\<rparr>)"

text \<open>The two loops over \<open>pathMatches\<close> and the revised-prompt match on one text.\<close>

definition parse_text :: "runtime \<Rightarrow> string \<Rightarrow> string list \<times> string option" where
  "parse_text rt text =
     ((case match_paths rt text of
         None \<Rightarrow> []
       | Some pathMatches \<Rightarrow>
           concat (map (\<lambda>m. case match_colon rt m of None \<Rightarrow> [] | Some g \<Rightarrow> [trim rt g])
                       pathMatches)),
      map_option (trim rt) (match_revised rt text))"

definition parse_result :: "runtime \<Rightarrow> op_result \<Rightarrow> string list \<times> string option" where
  "parse_result rt result =
     (case result of
        TextResult text \<Rightarrow> parse_text rt text
      | ContentResult content \<Rightarrow>
          (case find (\<lambda>c. ctype c = ''text'') content of
             None \<Rightarrow> ([], None)
           | Some textContent \<Rightarrow>
               if truthy (ctext textContent) then parse_text rt (the (ctext textContent))
               else ([], None))
      | OtherResult \<Rightarrow> ([], None))"

definition completed_result ::
  "runtime \<Rightarrow> BatchJobConfig \<Rightarrow> nat \<Rightarrow> string \<Rightarrow> nat \<Rightarrow> op_result \<Rightarrow> BatchJobResult" where
  "completed_result rt job i outputPath attempt result =
     (let (extracted, revisedPrompt) = parse_result rt result;
          outputPaths = (if length extracted = 0 then extracted @ [outputPath] else extracted)
      in \<lparr>index = i + 1, result_prompt = prompt job, status = Completed,
          output_paths = Some outputPaths, error = None,
          duration_ms = Some (clock rt i (Suc attempt) - clock rt i 0),
          revised_prompt = revisedPrompt, is_edit = Some (isEditJob job)\<rparr>)"

definition failed_result ::
  "runtime \<Rightarrow> BatchJobConfig \<Rightarrow> nat \<Rightarrow> nat \<Rightarrow> string \<Rightarrow> BatchJobResult" where
  "failed_result rt job i attempt lastError =
     \<lparr>index = i + 1, result_prompt = prompt job, status = Failed,
      output_paths = None, error = Some lastError,
      duration_ms = Some (clock rt i attempt - clock rt i 0),
      revised_prompt = None, is_edit = Some (isEditJob job)\<rparr>"

text \<open>
  What a run of \<open>executeJob\<close> does besides returning: the calls to the Image Operation
  (by attempt number) and the delays it sleeps, in order.
\<close>

datatype job_event = Attempt nat | Sleep int

text \<open>
  The \<open>for\<close> loop of \<open>executeJob\<close>, from \<open>attempt\<close> on. The catch block stores the message,
  computes \<open>shouldRetry\<close> and sleeps when it holds; in both cases control reaches the end
  of the loop body and the loop goes on with \<open>attempt + 1\<close>. The result is \<open>None\<close> when a
  call never settles.
\<close>

function executeJob_loop ::
  "runtime \<Rightarrow> BatchJobConfig \<Rightarrow> nat \<Rightarrow> string \<Rightarrow> BatchConfig \<Rightarrow> nat \<Rightarrow> string \<Rightarrow>
   job_event list \<Rightarrow> (BatchJobResult \<times> job_event list) option" where
  "executeJob_loop rt job i outputPath config attempt lastError tr =
     (if int attempt \<le> maxRetries_of config then
        (case call_operation rt job i outputPath config attempt of
           NeverSettles \<Rightarrow> None
         | Resolves result \<Rightarrow>
             Some (completed_result rt job i outputPath attempt result, tr @ [Attempt attempt])
         | Rejects err \<Rightarrow>
             executeJob_loop rt job i outputPath config (Suc attempt) (error_text err)
               (tr @ [Attempt attempt] @
                 (if shouldRetry (error_text err) (int attempt) (maxRetries_of config)
                       (retryPatterns_of config)
                  then [Sleep (retryDelay_of config)] else [])))
      else Some (failed_result rt job i attempt lastError, tr))"
  by pat_completeness auto
termination
  by (relation "measure (\<lambda>(rt, job, i, outputPath, config, attempt, lastError, tr).
                   nat (maxRetries_of config + 1 - int attempt))") auto

declare executeJob_loop.simps [simp del]

definition executeJob ::
  "runtime \<Rightarrow> BatchJobConfig \<Rightarrow> nat \<Rightarrow> string \<Rightarrow> BatchConfig \<Rightarrow>
   (BatchJobResult \<times> job_event list) option" where
  "executeJob rt job i outputPath config = executeJob_loop rt job i outputPath config 0 [] []"

definition attempts :: "job_event list \<Rightarrow> nat list" where
  "attempts tr = concat (map (\<lambda>e. case e of Attempt k \<Rightarrow> [k] | Sleep d \<Rightarrow> []) tr)"


text \<open>
  The trace of a job all of whose \<open>m + 1\<close> attempts are followed by a retry delay \<open>d\<close>
  except the last: attempt, sleep, attempt, ..., attempt.
\<close>

fun alternating_trace :: "int \<Rightarrow> nat \<Rightarrow> job_event list" where
  "alternating_trace d 0 = [Attempt 0]"
| "alternating_trace d (Suc m) = alternating_trace d m @ [Sleep d, Attempt (Suc m)]"

text \<open>
  Case-insensitive containment in the words of the specification, without reference to
  \<open>toLowerCase\<close>: two code units are the same letter up to case when they are equal, or one
  is a capital letter (code 65 to 90, or 192 to 222 except 215) and the other is the code
  unit 32 above it; a message contains a pattern, case ignored, when some contiguous part
  of the message agrees with the pattern letter by letter in this sense.
\<close>

definition is_capital :: "nat \<Rightarrow> bool" where
  "is_capital k = ((65 \<le> k \<and> k \<le> 90) \<or> (192 \<le> k \<and> k \<le> 222 \<and> k \<noteq> 215))"

definition same_letter :: "char \<Rightarrow> char \<Rightarrow> bool" where
  "same_letter a b =
     (a = b \<or>
      (is_capital (of_char a) \<and> (of_char b :: nat) = of_char a + 32) \<or>
      (is_capital (of_char b) \<and> (of_char a :: nat) = of_char b + 32))"

definition equal_ignoring_case :: "string \<Rightarrow> string \<Rightarrow> bool" where
  "equal_ignoring_case u p = list_all2 same_letter u p"

definition contains_ignoring_case :: "string \<Rightarrow> string \<Rightarrow> bool" where
  "contains_ignoring_case msg p = (\<exists>ps u ss. msg = ps @ u @ ss \<and> equal_ignoring_case u p)"

section \<open>mergeBatchConfig and resolveOutputPath (utils/batch-config.ts)\<close>

record BatchExecutionOptions =
  outputDir :: "string option"
  format :: "string option"
  opt_timeout :: "int option"  \<comment> \<open>the field \<open>timeout\<close>\<close>
  maxConcurrent :: "int option"
  estimateOnly :: "bool option"
  allowAnyPath :: "bool option"

text \<open>
  What the engine reads from Node: the \<open>path\<close> module, \<open>process.env.OUTPUT_DIR\<close>,
  \<open>process.cwd()\<close>, and the clock at the start and at the end of a batch.
\<close>

record node_env =
  path_isAbsolute :: "string \<Rightarrow> bool"
  path_resolve :: "string \<Rightarrow> string"
  path_join :: "string \<Rightarrow> string \<Rightarrow> string"
  env_OUTPUT_DIR :: "string option"
  cwd :: string
  now_start :: int
  now_end :: int
  iso_start :: string
  iso_end :: string



definition getDefaultOutputDirectory :: "node_env \<Rightarrow> string" where
  "getDefaultOutputDirectory nenv =
     (if truthy (env_OUTPUT_DIR nenv) then the (env_OUTPUT_DIR nenv) else cwd nenv)"

datatype BatchConfigError = BatchConfigError string

text \<open>Decimal rendering of an index inside a template string.\<close>

fun string_of_nat :: "nat \<Rightarrow> string" where
  "string_of_nat k =
     (if k < 10 then [''0123456789'' ! k]
      else string_of_nat (k div 10) @ [''0123456789'' ! (k mod 10)])"

declare string_of_nat.simps [simp del]

definition resolveOutputPath ::
  "node_env \<Rightarrow> BatchJobConfig \<Rightarrow> nat \<Rightarrow> string \<Rightarrow> bool \<Rightarrow> BatchConfigError + string" where
  "resolveOutputPath nenv job i outDir allowAny =
     (if truthy (output_path job) then
        (if path_isAbsolute nenv (the (output_path job)) then
           (if \<not> allowAny \<and>
               \<not> prefix (path_resolve nenv outDir) (path_resolve nenv (the (output_path job)))
            then Inl (BatchConfigError (''Job '' @ string_of_nat (i + 1) @
                   '': Output path must be within output directory. Use --allow-any-path to override.''))
            else Inr (the (output_path job)))
         else Inr (path_join nenv outDir (the (output_path job))))
      else Inr (path_join nenv outDir
                  ((if isEditJob job then ''edited'' else ''generated'') @ ''_'' @
                   string_of_nat (i + 1) @ ''.jpg'')))"

section \<open>Semaphore (utils/batch-manager.ts)\<close>

text \<open>
  The queue holds the \<open>resolve\<close> callbacks of the suspended callers; a callback is
  identified with the caller it wakes.
\<close>

record 'w Semaphore =
  permits :: int
  queue :: "'w list"

definition new_Semaphore :: "int \<Rightarrow> 'w Semaphore" where
  "new_Semaphore c = \<lparr>permits = c, queue = []\<rparr>"

text \<open>\<open>acquire\<close> by caller \<open>w\<close>: \<open>True\<close> when it returns at once, \<open>False\<close> when \<open>w\<close> is queued.\<close>

definition acquire :: "'w \<Rightarrow> 'w Semaphore \<Rightarrow> bool \<times> 'w Semaphore" where
  "acquire w s =
     (if permits s > 0 then (True, s\<lparr>permits := permits s - 1\<rparr>)
      else (False, s\<lparr>queue := queue s @ [w]\<rparr>))"

text \<open>\<open>release\<close>: the caller woken by \<open>queue.shift()\<close>, if any.\<close>

definition release :: "'w Semaphore \<Rightarrow> 'w option \<times> 'w Semaphore" where
  "release s =
     (case queue s of
        [] \<Rightarrow> (None, s\<lparr>permits := permits s + 1\<rparr>)
      | w # ws \<Rightarrow> (Some w, s\<lparr>queue := ws\<rparr>))"





section \<open>BatchManager.estimateBatchCost\<close>

text \<open>
  Prices are JavaScript numbers in the source; they are modelled as exact rationals, so
  the rounding of the floating-point sums is not part of the model.
\<close>

record model_cost =
  base :: rat
  edit_input :: rat

definition MODEL_COSTS :: "(string \<times> model_cost) list" where
  "MODEL_COSTS =
     [(''grok-imagine-image'', \<lparr>base = 2 / 100, edit_input = 2 / 1000\<rparr>),
      (''grok-2-image'', \<lparr>base = 7 / 100, edit_input = 0\<rparr>),
      (''grok-2-image-latest'', \<lparr>base = 7 / 100, edit_input = 0\<rparr>),
      (''grok-2-image-1212'', \<lparr>base = 7 / 100, edit_input = 0\<rparr>)]"

text \<open>\<open>MODEL_COSTS[modelName] || MODEL_COSTS['grok-imagine-image']\<close>\<close>

definition costs_of :: "string \<Rightarrow> model_cost" where
  "costs_of modelName =
     (case map_of MODEL_COSTS modelName of
        Some c \<Rightarrow> c
      | None \<Rightarrow> the (map_of MODEL_COSTS ''grok-imagine-image''))"

record model_count =
  count :: nat
  images :: int
  isEdit :: bool

record breakdown_entry =
  b_model :: string  \<comment> \<open>the field \<open>model\<close>\<close>
  b_count :: nat  \<comment> \<open>the field \<open>count\<close>\<close>
  b_images :: int  \<comment> \<open>the field \<open>images\<close>\<close>
  costMin :: rat
  costMax :: rat

record CostEstimate =
  totalJobs :: nat
  totalImages :: int
  estimatedCostMin :: rat
  estimatedCostMax :: rat
  breakdown :: "breakdown_entry list"

text \<open>\<open>job.model || config.default_model || 'grok-imagine-image'\<close>\<close>

definition effective_model :: "BatchConfig \<Rightarrow> BatchJobConfig \<Rightarrow> string" where
  "effective_model config job =
     (if truthy (model job) then the (model job)
      else if truthy (default_model config) then the (default_model config)
      else ''grok-imagine-image'')"

definition job_key :: "BatchConfig \<Rightarrow> BatchJobConfig \<Rightarrow> string" where
  "job_key config job = effective_model config job @ (if isEditJob job then ''_edit'' else [])"

text \<open>
  \<open>modelCounts\<close> is an object used as a dictionary; it is modelled by an association list
  in insertion order, which is the order of \<open>Object.entries\<close> for keys that are not
  array indices. Keys that name a property inherited from \<open>Object.prototype\<close> are outside
  the model. The body of the first loop, for one job:
\<close>

definition count_job ::
  "BatchConfig \<Rightarrow> (string \<times> model_count) list \<Rightarrow> BatchJobConfig \<Rightarrow> (string \<times> model_count) list" where
  "count_job config modelCounts job =
     (let key = job_key config job;
          mc = (if map_of modelCounts key = None
                then modelCounts @ [(key, \<lparr>count = 0, images = 0, isEdit = isEditJob job\<rparr>)]
                else modelCounts)
      in map (\<lambda>(k, d). if k = key
                         then (k, d\<lparr>count := count d + 1,
                                   images := images d + or_num (n_images job) 1\<rparr>)
                         else (k, d)) mc)"

text \<open>\<open>s.replace(pat, rep)\<close> with a string pattern: the first occurrence is replaced.\<close>

fun replace_first :: "string \<Rightarrow> string \<Rightarrow> string \<Rightarrow> string" where
  "replace_first pat rep [] = (if pat = [] then rep else [])"
| "replace_first pat rep (c # cs) =
     (if prefix pat (c # cs) then rep @ drop (length pat) (c # cs)
      else c # replace_first pat rep cs)"

definition group_cost :: "string \<Rightarrow> model_count \<Rightarrow> rat" where
  "group_cost key d =
     (let costs = costs_of (replace_first ''_edit'' [] key);
          baseCost = base costs * of_int (images d);
          editCost = (if isEdit d then edit_input costs * of_nat (count d) else 0)
      in baseCost + editCost)"

text \<open>The body of the second loop, on the estimate built so far.\<close>

definition add_group :: "CostEstimate \<Rightarrow> string \<times> model_count \<Rightarrow> CostEstimate" where
  "add_group est kd =
     (let cost = group_cost (fst kd) (snd kd)
      in est\<lparr>breakdown := breakdown est @
                 [\<lparr>b_model = fst kd, b_count = count (snd kd), b_images = images (snd kd),
                   costMin = cost, costMax = cost\<rparr>],
             estimatedCostMin := estimatedCostMin est + cost,
             estimatedCostMax := estimatedCostMax est + cost,
             totalImages := totalImages est + images (snd kd)\<rparr>)"

definition estimateBatchCost :: "BatchConfig \<Rightarrow> CostEstimate" where
  "estimateBatchCost config =
     foldl add_group
       \<lparr>totalJobs = length (jobs config), totalImages = 0, estimatedCostMin = 0,
        estimatedCostMax = 0, breakdown = []\<rparr>
       (foldl (count_job config) [] (jobs config))"

















section \<open>BatchManager.executeBatch\<close>

record BatchResult =
  total :: nat
  succeeded :: nat
  failed :: nat
  cancelled :: nat
  results :: "BatchJobResult list"
  started_at :: string
  finished_at :: string
  total_duration_ms :: int
  estimated_cost :: "rat option"

text \<open>
  The launch loop resolves the output path of every job in order; the first path that is
  refused makes \<open>executeBatch\<close> throw.
\<close>

fun resolve_all ::
  "node_env \<Rightarrow> string \<Rightarrow> bool \<Rightarrow> nat \<Rightarrow> BatchJobConfig list \<Rightarrow> BatchConfigError + string list" where
  "resolve_all nenv outDir allowAny i [] = Inr []"
| "resolve_all nenv outDir allowAny i (job # rest) =
     (case resolveOutputPath nenv job i outDir allowAny of
        Inl e \<Rightarrow> Inl e
      | Inr p \<Rightarrow>
          (case resolve_all nenv outDir allowAny (Suc i) rest of
             Inl e \<Rightarrow> Inl e
           | Inr ps \<Rightarrow> Inr (p # ps)))"

text \<open>
  The state shared by the job tasks: the semaphore, the tasks that have passed
  \<open>await semaphore.acquire()\<close> and have \<open>executeJob\<close> in flight, the \<open>results\<close> array and
  the flag \<open>timedOut\<close>.
\<close>

record batch_state =
  semaphore :: "nat Semaphore"
  in_flight :: "nat list"
  st_results :: "BatchJobResult list"  \<comment> \<open>the array \<open>results\<close>\<close>
  timedOut :: bool

text \<open>Task \<open>i\<close> is created: it runs up to its \<open>await semaphore.acquire()\<close>.\<close>

definition launch_task :: "batch_state \<Rightarrow> nat \<Rightarrow> batch_state" where
  "launch_task st i =
     (case acquire i (semaphore st) of
        (True, sem') \<Rightarrow> st\<lparr>semaphore := sem', in_flight := in_flight st @ [i]\<rparr>
      | (False, sem') \<Rightarrow> st\<lparr>semaphore := sem'\<rparr>)"

definition launch_all :: "int \<Rightarrow> nat \<Rightarrow> batch_state" where
  "launch_all c k =
     foldl launch_task
       \<lparr>semaphore = new_Semaphore c, in_flight = [], st_results = [], timedOut = False\<rparr> [0..<k]"

text \<open>
  What happens while \<open>executeBatch\<close> awaits: the \<open>executeJob\<close> of a task in flight returns,
  or the batch timer fires. The order of these events is chosen by the environment.
\<close>

datatype batch_event = JobSettles nat | TimerFires

definition all_done :: "batch_state \<Rightarrow> bool" where
  "all_done st = (in_flight st = [] \<and> queue (semaphore st) = [])"

text \<open>
  The continuation of task \<open>i\<close> after \<open>executeJob\<close>: push the result, then release in the
  \<open>finally\<close> block, which hands the permit to the head of the queue if there is one.
\<close>

definition settle_task :: "batch_state \<Rightarrow> nat \<Rightarrow> BatchJobResult \<Rightarrow> batch_state" where
  "settle_task st i r =
     (case release (semaphore st) of
        (Some w, sem') \<Rightarrow>
          st\<lparr>semaphore := sem', in_flight := remove1 i (in_flight st) @ [w],
             st_results := st_results st @ [r]\<rparr>
      | (None, sem') \<Rightarrow>
          st\<lparr>semaphore := sem', in_flight := remove1 i (in_flight st),
             st_results := st_results st @ [r]\<rparr>)"

text \<open>
  One event; \<open>None\<close> when the event cannot happen in this state: a job settles only
  when it is in flight and its \<open>executeJob\<close> returns, and the timer decides the race only
  while some task is unfinished. (The two bounds on \<open>i\<close> hold of every task in flight;
  they keep the list lookups in range.)
\<close>

definition batch_step ::
  "runtime \<Rightarrow> BatchConfig \<Rightarrow> string list \<Rightarrow> batch_state \<Rightarrow> batch_event \<Rightarrow> batch_state option" where
  "batch_step rt config paths st ev =
     (case ev of
        JobSettles i \<Rightarrow>
          (if i \<in> set (in_flight st) \<and> i < length (jobs config) \<and> i < length paths then
             (case executeJob rt (jobs config ! i) i (paths ! i) config of
                None \<Rightarrow> None
              | Some (r, tr) \<Rightarrow> Some (settle_task st i r))
           else None)
      | TimerFires \<Rightarrow>
          (if \<not> timedOut st \<and> \<not> all_done st then Some (st\<lparr>timedOut := True\<rparr>) else None))"

fun batch_run ::
  "runtime \<Rightarrow> BatchConfig \<Rightarrow> string list \<Rightarrow> batch_state \<Rightarrow> batch_event list \<Rightarrow> batch_state option" where
  "batch_run rt config paths st [] = Some st"
| "batch_run rt config paths st (ev # evs) =
     (case batch_step rt config paths st ev of
        None \<Rightarrow> None
      | Some st' \<Rightarrow> batch_run rt config paths st' evs)"

text \<open>The part of \<open>executeBatch\<close> after the race: sweep, sort, totals, estimate.\<close>

definition cancelled_result :: "BatchConfig \<Rightarrow> nat \<Rightarrow> BatchJobResult" where
  "cancelled_result config i =
     \<lparr>index = i + 1, result_prompt = prompt (jobs config ! i), status = Cancelled,
      output_paths = None, error = Some ''Job cancelled due to timeout'',
      duration_ms = None, revised_prompt = None, is_edit = None\<rparr>"

definition sweep :: "BatchConfig \<Rightarrow> BatchJobResult list \<Rightarrow> BatchJobResult list" where
  "sweep config rs =
     rs @ concat (map (\<lambda>i. if i + 1 \<in> set (map index rs) then [] else [cancelled_result config i])
                      [0..<length (jobs config)])"

definition make_report :: "node_env \<Rightarrow> BatchConfig \<Rightarrow> BatchJobResult list \<Rightarrow> BatchResult" where
  "make_report nenv config rs =
     (let sorted_rs = sort_key index (sweep config rs)
      in \<lparr>total = length (jobs config),
          succeeded = length (filter (\<lambda>r. status r = Completed) sorted_rs),
          failed = length (filter (\<lambda>r. status r = Failed) sorted_rs),
          cancelled = length (filter (\<lambda>r. status r = Cancelled) sorted_rs),
          results = sorted_rs,
          started_at = iso_start nenv, finished_at = iso_end nenv,
          total_duration_ms = now_end nenv - now_start nenv,
          estimated_cost = Some (estimatedCostMin (estimateBatchCost config))\<rparr>)"

text \<open>The grace period awaited in the timeout branch, in milliseconds.\<close>

definition grace_period_ms :: int where
  "grace_period_ms = 2000"

text \<open>
  \<open>executeBatch\<close> under a given order of events. The outcome is \<open>None\<close> when the events are
  not a run of the batch up to its report: an event that cannot happen, or a race that
  is still undecided at the end. Otherwise it is the error thrown or the report, together
  with the delays awaited after the race. Real time is not modelled: the duration of the
  timer (\<open>config.timeout || 600000\<close>) shows only in where \<open>TimerFires\<close> stands among the
  events, and the events after it are the jobs that settle within the grace period. The
  report is the value returned; a task that settles later pushes to the same array.
\<close>

definition executeBatch ::
  "runtime \<Rightarrow> node_env \<Rightarrow> BatchConfig \<Rightarrow> BatchExecutionOptions \<Rightarrow> batch_event list \<Rightarrow>
   (BatchConfigError + BatchResult \<times> int list) option" where
  "executeBatch rt nenv config options evs =
     (let maxConc = or_num (max_concurrent config) 2;
          outDir = (if truthy (output_dir config) then the (output_dir config)
                    else getDefaultOutputDirectory nenv)
      in case resolve_all nenv outDir (allowAnyPath options = Some True) 0 (jobs config) of
           Inl e \<Rightarrow> Some (Inl e)
         | Inr paths \<Rightarrow>
             (case batch_run rt config paths (launch_all maxConc (length (jobs config))) evs of
                None \<Rightarrow> None
              | Some st \<Rightarrow>
                  if timedOut st
                  then Some (Inr (make_report nenv config (st_results st), [grace_period_ms]))
                  else if all_done st
                  then Some (Inr (make_report nenv config (st_results st), []))
                  else None))"

section \<open>Auxiliary notions for the proofs\<close>



text \<open>
  Every task of a batch of \<open>k\<close> jobs is in exactly one place: in flight, in the queue of
  the semaphore, or recorded in \<open>results\<close> under its 1-based index.
\<close>

definition done_tasks :: "batch_state \<Rightarrow> nat list" where
  "done_tasks st = map (\<lambda>r. index r - 1) (st_results st)"

definition tasks_partitioned :: "nat \<Rightarrow> batch_state \<Rightarrow> bool" where
  "tasks_partitioned k st =
     (distinct (in_flight st @ queue (semaphore st) @ done_tasks st) \<and>
      set (in_flight st) \<union> set (queue (semaphore st)) \<union> set (done_tasks st) = {0..<k} \<and>
      list_all (\<lambda>r. 0 < index r) (st_results st))"



text \<open>What one rejected attempt \<open>k\<close> adds to the trace of \<open>executeJob\<close>.\<close>

definition step_events :: "BatchConfig \<Rightarrow> (nat \<Rightarrow> thrown) \<Rightarrow> nat \<Rightarrow> job_event list" where
  "step_events config errs k =
     Attempt k #
       (if shouldRetry (error_text (errs k)) (int k) (maxRetries_of config) (retryPatterns_of config)
        then [Sleep (retryDelay_of config)] else [])"

text \<open>The outcomes recorded in \<open>results\<close> when the sweep of \<open>executeBatch\<close> starts.\<close>

definition recorded_outcomes ::
  "runtime \<Rightarrow> node_env \<Rightarrow> BatchConfig \<Rightarrow> BatchExecutionOptions \<Rightarrow> batch_event list \<Rightarrow>
   BatchJobResult list" where
  "recorded_outcomes rt nenv config options evs =
     (case resolve_all nenv
             (if truthy (output_dir config) then the (output_dir config)
              else getDefaultOutputDirectory nenv)
             (allowAnyPath options = Some True) 0 (jobs config) of
        Inl e \<Rightarrow> []
      | Inr paths \<Rightarrow>
          (case batch_run rt config paths
                  (launch_all (or_num (max_concurrent config) 2) (length (jobs config))) evs of
             None \<Rightarrow> []
           | Some st \<Rightarrow> st_results st))"

section \<open>Example inputs\<close>

definition job0 :: BatchJobConfig where
  "job0 = \<lparr>prompt = ''a cat'', output_path = None, model = None, aspect_ratio = None,
           resolution = None, n_images = None, image_path = None, image_base64 = None,
           image_url = None\<rparr>"

definition cfg0 :: BatchConfig where
  "cfg0 = \<lparr>jobs = [job0], output_dir = None, max_concurrent = None, timeout = None,
           retry_policy = None, default_model = None, default_resolution = None,
           default_aspect_ratio = None\<rparr>"

definition cfg_retry :: BatchConfig where
  "cfg_retry = cfg0\<lparr>retry_policy :=
     Some \<lparr>max_retries = Some 3, retry_delay_ms = Some 500, retry_on_errors = None\<rparr>\<rparr>"

definition cfg_once :: BatchConfig where
  "cfg_once = cfg0\<lparr>retry_policy :=
     Some \<lparr>max_retries = Some 0, retry_delay_ms = None, retry_on_errors = Some [''429'']\<rparr>\<rparr>"

definition cfg_quota :: BatchConfig where
  "cfg_quota = cfg0\<lparr>retry_policy :=
     Some \<lparr>max_retries = Some 1, retry_delay_ms = None, retry_on_errors = Some [''Quota'']\<rparr>\<rparr>"

definition unauthorized :: thrown where
  "unauthorized = Thrown (Some ''401 Unauthorized'') ''Error: 401 Unauthorized''"

definition rate_limited :: thrown where
  "rate_limited = Thrown (Some ''HTTP 429 Too Many Requests'') ''Error: HTTP 429 Too Many Requests''"

definition rt_base :: runtime where
  "rt_base = \<lparr>generateImage = (\<lambda>i k p. NeverSettles), editImage = (\<lambda>i k p. NeverSettles),
              match_paths = (\<lambda>t. None), match_colon = (\<lambda>t. None),
              match_revised = (\<lambda>t. None), trim = (\<lambda>t. t), clock = (\<lambda>i k. 0)\<rparr>"

definition rt_unauthorized :: runtime where
  "rt_unauthorized = rt_base\<lparr>generateImage := (\<lambda>i k p. Rejects unauthorized)\<rparr>"

definition rt_rate_limited :: runtime where
  "rt_rate_limited = rt_base\<lparr>generateImage := (\<lambda>i k p. Rejects rate_limited)\<rparr>"

definition rt_ok :: runtime where
  "rt_ok = rt_base\<lparr>generateImage := (\<lambda>i k p. Resolves (TextResult ''done''))\<rparr>"

definition nenv0 :: node_env where
  "nenv0 = \<lparr>path_isAbsolute = (\<lambda>p. False), path_resolve = (\<lambda>p. p),
            path_join = (\<lambda>a b. a @ ''/'' @ b), env_OUTPUT_DIR = None, cwd = ''/work'',
            now_start = 0, now_end = 5000, iso_start = ''t0'', iso_end = ''t1''\<rparr>"

definition opts0 :: BatchExecutionOptions where
  "opts0 = \<lparr>outputDir = None, format = None, opt_timeout = None, maxConcurrent = None,
            estimateOnly = None, allowAnyPath = None\<rparr>"

definition cfg2 :: BatchConfig where
  "cfg2 = cfg0\<lparr>jobs := [job0, job0\<lparr>prompt := ''a dog''\<rparr>]\<rparr>"

definition rt_first_only :: runtime where
  "rt_first_only =
     rt_base\<lparr>generateImage :=
       (\<lambda>i k p. if i = 0 then Resolves (TextResult ''done'') else NeverSettles)\<rparr>"





section \<open>Properties of executeJob\<close>

lemma includes_str_iff: "includes_str s p \<longleftrightarrow> (\<exists>ps ss. s = ps @ p @ ss)"
proof (induction s)
  case Nil
  then show ?case by auto
next
  case (Cons c cs)
  show ?case
  proof
    assume "includes_str (c # cs) p"
    then consider "prefix p (c # cs)" | "includes_str cs p" by auto
    then show "\<exists>ps ss. c # cs = ps @ p @ ss"
    proof cases
      case 1
      then obtain ss where "c # cs = p @ ss" by (auto simp: prefix_def)
      then have "c # cs = [] @ p @ ss" by simp
      then show ?thesis by blast
    next
      case 2
      with Cons.IH obtain ps ss where "cs = ps @ p @ ss" by blast
      then have "c # cs = (c # ps) @ p @ ss" by simp
      then show ?thesis by blast
    qed
  next
    assume "\<exists>ps ss. c # cs = ps @ p @ ss"
    then obtain ps ss where eq: "c # cs = ps @ p @ ss" by blast
    show "includes_str (c # cs) p"
    proof (cases ps)
      case Nil
      with eq have "prefix p (c # cs)" by (simp add: prefix_def)
      then show ?thesis by simp
    next
      case (Cons a as)
      with eq have "cs = as @ p @ ss" by simp
      with Cons.IH have "includes_str cs p" by blast
      then show ?thesis by simp
    qed
  qed
qed


lemma executeJob_loop_past_end:
  "\<not> int a \<le> maxRetries_of config \<Longrightarrow>
   executeJob_loop rt job i outputPath config a lastError tr
     = Some (failed_result rt job i a lastError, tr)"
  by (subst executeJob_loop.simps) simp

lemma executeJob_loop_rejects:
  "int a \<le> maxRetries_of config \<Longrightarrow>
   call_operation rt job i outputPath config a = Rejects err \<Longrightarrow>
   executeJob_loop rt job i outputPath config a lastError tr
     = executeJob_loop rt job i outputPath config (Suc a) (error_text err)
         (tr @ [Attempt a] @
           (if shouldRetry (error_text err) (int a) (maxRetries_of config) (retryPatterns_of config)
            then [Sleep (retryDelay_of config)] else []))"
  by (subst executeJob_loop.simps) simp

lemma executeJob_loop_resolves:
  "int a \<le> maxRetries_of config \<Longrightarrow>
   call_operation rt job i outputPath config a = Resolves res \<Longrightarrow>
   executeJob_loop rt job i outputPath config a lastError tr
     = Some (completed_result rt job i outputPath a res, tr @ [Attempt a])"
  by (subst executeJob_loop.simps) simp

lemma executeJob_loop_never:
  "int a \<le> maxRetries_of config \<Longrightarrow>
   call_operation rt job i outputPath config a = NeverSettles \<Longrightarrow>
   executeJob_loop rt job i outputPath config a lastError tr = None"
  by (subst executeJob_loop.simps) simp

lemma executeJob_loop_all_reject:
  assumes "\<forall>k. a \<le> k \<and> int k \<le> maxRetries_of config \<longrightarrow>
             call_operation rt job i outputPath config k = Rejects (errs k)"
  shows "executeJob_loop rt job i outputPath config a lastError tr
           = Some (failed_result rt job i (max a (nat (maxRetries_of config + 1)))
                     (if int a \<le> maxRetries_of config
                      then error_text (errs (nat (maxRetries_of config))) else lastError),
                   tr @ concat (map (step_events config errs)
                                  [a..<nat (maxRetries_of config + 1)]))"
  using assms
proof (induction "nat (maxRetries_of config + 1) - a" arbitrary: a lastError tr)
  case 0
  then have past: "\<not> int a \<le> maxRetries_of config" by linarith
  then have "max a (nat (maxRetries_of config + 1)) = a" by linarith
  moreover from past have "[a..<nat (maxRetries_of config + 1)] = []" by simp
  ultimately show ?case using past by (simp add: executeJob_loop_past_end)
next
  case (Suc d)
  then have inside: "int a \<le> maxRetries_of config" by linarith
  with Suc.prems have rej: "call_operation rt job i outputPath config a = Rejects (errs a)"
    by simp
  have d: "d = nat (maxRetries_of config + 1) - Suc a" using Suc.hyps(2) by linarith
  have later: "\<forall>k. Suc a \<le> k \<and> int k \<le> maxRetries_of config \<longrightarrow>
                 call_operation rt job i outputPath config k = Rejects (errs k)"
    using Suc.prems by simp
  have upt: "[a..<nat (maxRetries_of config + 1)] = a # [Suc a..<nat (maxRetries_of config + 1)]"
    using inside by (simp add: upt_conv_Cons)
  have mx: "max (Suc a) (nat (maxRetries_of config + 1)) = max a (nat (maxRetries_of config + 1))"
    using inside by linarith
  have last: "\<not> int (Suc a) \<le> maxRetries_of config \<Longrightarrow> a = nat (maxRetries_of config)"
    using inside by linarith
  show ?case
    unfolding executeJob_loop_rejects [OF inside rej] Suc.hyps(1) [OF d later] upt mx
    using last inside by (auto simp: step_events_def)
qed

lemma executeJob_loop_status:
  "executeJob_loop rt job i outputPath config a lastError tr = Some (r, tr') \<Longrightarrow>
   status r = Completed \<or> status r = Failed"
proof (induction rt job i outputPath config a lastError tr rule: executeJob_loop.induct)
  case (1 rt job i outputPath config attempt lastError tr)
  show ?case
  proof (cases "int attempt \<le> maxRetries_of config")
    case False
    with "1.prems" show ?thesis
      by (auto simp: executeJob_loop_past_end failed_result_def)
  next
    case True
    show ?thesis
    proof (cases "call_operation rt job i outputPath config attempt")
      case (Resolves res)
      with True "1.prems" show ?thesis
        by (auto simp: executeJob_loop_resolves completed_result_def Let_def split: prod.splits)
    next
      case (Rejects err)
      with True "1.prems" "1.IH" show ?thesis
        by (simp add: executeJob_loop_rejects)
    next
      case NeverSettles
      with True "1.prems" show ?thesis
        by (simp add: executeJob_loop_never)
    qed
  qed
qed

lemma executeJob_loop_returns:
  "\<forall>k. a \<le> k \<and> int k \<le> maxRetries_of config \<longrightarrow>
       call_operation rt job i outputPath config k \<noteq> NeverSettles \<Longrightarrow>
   \<exists>y. executeJob_loop rt job i outputPath config a lastError tr = Some y"
proof (induction rt job i outputPath config a lastError tr rule: executeJob_loop.induct)
  case (1 rt job i outputPath config attempt lastError tr)
  show ?case
  proof (cases "int attempt \<le> maxRetries_of config")
    case False
    then show ?thesis by (simp add: executeJob_loop_past_end)
  next
    case True
    show ?thesis
    proof (cases "call_operation rt job i outputPath config attempt")
      case (Resolves res)
      with True show ?thesis by (simp add: executeJob_loop_resolves)
    next
      case (Rejects err)
      have "\<forall>k. Suc attempt \<le> k \<and> int k \<le> maxRetries_of config \<longrightarrow>
              call_operation rt job i outputPath config k \<noteq> NeverSettles"
        using "1.prems" by simp
      with True Rejects "1.IH" show ?thesis
        by (simp add: executeJob_loop_rejects)
    next
      case NeverSettles
      with True "1.prems" show ?thesis by auto
    qed
  qed
qed

lemma executeJob_loop_completed:
  "executeJob_loop rt job i outputPath config a lastError tr = Some (r, tr') \<Longrightarrow>
   status r = Completed \<Longrightarrow>
   \<exists>k res. call_operation rt job i outputPath config k = Resolves res \<and>
           r = completed_result rt job i outputPath k res"
proof (induction rt job i outputPath config a lastError tr rule: executeJob_loop.induct)
  case (1 rt job i outputPath config attempt lastError tr)
  show ?case
  proof (cases "int attempt \<le> maxRetries_of config")
    case False
    with "1.prems" show ?thesis
      by (auto simp: executeJob_loop_past_end failed_result_def)
  next
    case True
    show ?thesis
    proof (cases "call_operation rt job i outputPath config attempt")
      case (Resolves res)
      with True "1.prems" show ?thesis
        by (auto simp: executeJob_loop_resolves)
    next
      case (Rejects err)
      with True "1.prems" "1.IH" show ?thesis
        by (simp add: executeJob_loop_rejects)
    next
      case NeverSettles
      with True "1.prems" show ?thesis
        by (simp add: executeJob_loop_never)
    qed
  qed
qed

lemma executeJob_loop_index:
  "executeJob_loop rt job i outputPath config a lastError tr = Some (r, tr') \<Longrightarrow>
   index r = i + 1 \<and> result_prompt r = prompt job"
proof (induction rt job i outputPath config a lastError tr rule: executeJob_loop.induct)
  case (1 rt job i outputPath config attempt lastError tr)
  show ?case
  proof (cases "int attempt \<le> maxRetries_of config")
    case False
    with "1.prems" show ?thesis
      by (auto simp: executeJob_loop_past_end failed_result_def)
  next
    case True
    show ?thesis
    proof (cases "call_operation rt job i outputPath config attempt")
      case (Resolves res)
      with True "1.prems" show ?thesis
        by (auto simp: executeJob_loop_resolves completed_result_def Let_def split: prod.splits)
    next
      case (Rejects err)
      with True "1.prems" "1.IH" show ?thesis
        by (simp add: executeJob_loop_rejects)
    next
      case NeverSettles
      with True "1.prems" show ?thesis
        by (simp add: executeJob_loop_never)
    qed
  qed
qed


lemma sleeps_below:
  "m \<le> b \<Longrightarrow>
   map (\<lambda>k. Attempt k # (if k < b then [Sleep d] else [])) [0..<m]
     = map (\<lambda>k. [Attempt k, Sleep d]) [0..<m]"
  by (induction m) auto

lemma alternating_trace_pairs:
  "alternating_trace d m = concat (map (\<lambda>k. [Attempt k, Sleep d]) [0..<m]) @ [Attempt m]"
  by (induction m) auto

lemma alternating_trace_upt:
  "alternating_trace d m
     = concat (map (\<lambda>k. Attempt k # (if k < m then [Sleep d] else [])) [0..<Suc m])"
proof -
  have "concat (map (\<lambda>k. Attempt k # (if k < m then [Sleep d] else [])) [0..<Suc m])
        = concat (map (\<lambda>k. Attempt k # (if k < m then [Sleep d] else [])) [0..<m]) @ [Attempt m]"
    by simp
  also have "\<dots> = concat (map (\<lambda>k. [Attempt k, Sleep d]) [0..<m]) @ [Attempt m]"
    by (simp only: sleeps_below [OF order_refl])
  finally show ?thesis by (simp only: alternating_trace_pairs)
qed

lemma attempts_alternating: "attempts (alternating_trace d m) = [0..<Suc m]"
  by (induction m) (auto simp: attempts_def)

lemma upper_codes:
  "map (of_char :: char \<Rightarrow> nat) upper_letters = [65..<91] @ [192..<215] @ [216..<223]"
  by (simp add: upper_letters_def upt_rec)

lemma lower_codes:
  "map (\<lambda>c. (of_char (lower_char c) :: nat)) upper_letters
     = map (\<lambda>k. k + 32) ([65..<91] @ [192..<215] @ [216..<223])"
  by (simp add: upt_rec lower_char_def upper_letters_def lower_letters_def)

lemma upper_letters_iff: "c \<in> set upper_letters \<longleftrightarrow> is_capital (of_char c)"
proof -
  have "is_capital (of_char c)
          \<longleftrightarrow> (of_char c :: nat) \<in> set ([65..<91] @ [192..<215] @ [216..<223])"
    unfolding is_capital_def set_append set_upt atLeastLessThan_iff Un_iff by arith
  also have "\<dots> \<longleftrightarrow> (of_char c :: nat) \<in> of_char ` set upper_letters"
    by (simp only: upper_codes [symmetric] set_map)
  also have "\<dots> \<longleftrightarrow> c \<in> set upper_letters"
    by (auto simp only: image_iff of_char_eq_iff)
  finally show ?thesis by simp
qed

lemma lower_char_code:
  "(of_char (lower_char c) :: nat)
     = (if is_capital (of_char c) then of_char c + 32 else of_char c)"
proof (cases "c \<in> set upper_letters")
  case True
  have "map (\<lambda>c. (of_char (lower_char c) :: nat)) upper_letters
          = map (\<lambda>c. of_char c + 32) upper_letters"
    by (simp only: lower_codes upper_codes [symmetric] map_map o_def)
  then have "\<forall>u \<in> set upper_letters. (of_char (lower_char u) :: nat) = of_char u + 32"
    by (simp only: map_eq_conv)
  with True show ?thesis by (simp add: upper_letters_iff)
next
  case False
  then have "map_of (zip upper_letters lower_letters) c = None"
    by (simp add: map_of_eq_None_iff upper_letters_def lower_letters_def)
  with False show ?thesis by (simp add: lower_char_def upper_letters_iff)
qed

lemma lower_char_eq_iff: "lower_char a = lower_char b \<longleftrightarrow> same_letter a b"
proof -
  have "lower_char a = lower_char b
          \<longleftrightarrow> (of_char (lower_char a) :: nat) = of_char (lower_char b)"
    by simp
  also have "\<dots> \<longleftrightarrow> same_letter a b"
    unfolding lower_char_code same_letter_def by (auto simp: is_capital_def)
  finally show ?thesis .
qed

lemma equal_ignoring_case_iff:
  "equal_ignoring_case u p \<longleftrightarrow> map lower_char u = map lower_char p"
  unfolding equal_ignoring_case_def
  by (induction u p rule: list_induct2') (simp_all add: lower_char_eq_iff)

lemma contains_ignoring_case_iff:
  "contains_ignoring_case msg p \<longleftrightarrow> includes_str (toLowerCase msg) (toLowerCase p)"
proof
  assume "contains_ignoring_case msg p"
  then obtain ps u ss where "msg = ps @ u @ ss" "map lower_char u = map lower_char p"
    by (auto simp: contains_ignoring_case_def equal_ignoring_case_iff)
  then have "toLowerCase msg = map lower_char ps @ toLowerCase p @ map lower_char ss"
    by (simp add: toLowerCase_def)
  then show "includes_str (toLowerCase msg) (toLowerCase p)"
    unfolding includes_str_iff by blast
next
  assume "includes_str (toLowerCase msg) (toLowerCase p)"
  then obtain xs ys where h: "map lower_char msg = xs @ (map lower_char p @ ys)"
    unfolding includes_str_iff toLowerCase_def by blast
  from h [unfolded map_eq_append_conv]
  obtain ps rest where msg: "msg = ps @ rest"
    and rest: "map lower_char p @ ys = map lower_char rest" by blast
  from rest [unfolded append_eq_map_conv]
  obtain u ss where "rest = u @ ss" "map lower_char p = map lower_char u" by blast
  with msg have "msg = ps @ u @ ss \<and> equal_ignoring_case u p"
    by (simp add: equal_ignoring_case_iff)
  then show "contains_ignoring_case msg p"
    unfolding contains_ignoring_case_def by blast
qed

lemmas example_defs =
  job0_def cfg0_def cfg_retry_def cfg_once_def cfg_quota_def unauthorized_def rate_limited_def rt_base_def
  rt_unauthorized_def rt_rate_limited_def rt_ok_def

lemma executeJob_all_reject:
  assumes "\<forall>k. int k \<le> maxRetries_of config \<longrightarrow>
             call_operation rt job i outputPath config k = Rejects (errs k)"
    and "0 \<le> maxRetries_of config"
  shows "executeJob rt job i outputPath config
           = Some (failed_result rt job i (nat (maxRetries_of config + 1))
                     (error_text (errs (nat (maxRetries_of config)))),
                   concat (map (step_events config errs) [0..<nat (maxRetries_of config + 1)]))"
  unfolding executeJob_def
  using executeJob_loop_all_reject [of 0 config rt job i outputPath errs "[]" "[]"] assms
  by simp

text \<open>
  Claim C1 says that a job whose attempt fails with a message matching no retryable
  pattern is reported Failed after exactly one attempt. The loop has no exit in its catch
  block: under the default policy (two retries, the four default patterns) a job whose
  every call is rejected with \<open>401 Unauthorized\<close> calls the Image Operation three times,
  without sleeping in between, before it is reported Failed.
\<close>

theorem C1_nonretryable_error_is_attempted_again:
  "\<not> list_ex (\<lambda>pattern. includes_str (toLowerCase ''401 Unauthorized'') (toLowerCase pattern))
        (retryPatterns_of cfg0) \<and>
   maxRetries_of cfg0 = 2 \<and>
   call_operation rt_unauthorized job0 0 ''out.jpg'' cfg0 0
     = Rejects (Thrown (Some ''401 Unauthorized'') ''Error: 401 Unauthorized'') \<and>
   map_option (\<lambda>(r, tr). (status r, error r, tr)) (executeJob rt_unauthorized job0 0 ''out.jpg'' cfg0)
     = Some (Failed, Some ''401 Unauthorized'', [Attempt 0, Attempt 1, Attempt 2])"
  unfolding example_defs by code_simp

lemma maxRetries_of_policy:
  "maxRetries_of config
     = (case retry_policy config of
          None \<Rightarrow> 2
        | Some pol \<Rightarrow> (case max_retries pol of None \<Rightarrow> 2 | Some v \<Rightarrow> v))"
  by (simp add: maxRetries_of_def retryPolicy_of_def split: option.splits)

lemma retryDelay_of_policy:
  "retryDelay_of config
     = (case retry_policy config of
          None \<Rightarrow> 1000
        | Some pol \<Rightarrow> (case retry_delay_ms pol of None \<Rightarrow> 1000 | Some v \<Rightarrow> v))"
  by (simp add: retryDelay_of_def retryPolicy_of_def split: option.splits)

lemma retryPatterns_of_policy:
  "retryPatterns_of config
     = (case retry_policy config of
          None \<Rightarrow> [''rate_limit'', ''timeout'', ''429'', ''503'']
        | Some pol \<Rightarrow>
            (case retry_on_errors pol of
               None \<Rightarrow> [''rate_limit'', ''timeout'', ''429'', ''503'']
             | Some ps \<Rightarrow> ps))"
  by (simp add: retryPatterns_of_def retryPolicy_of_def default_patterns_def split: option.splits)

lemma shouldRetry_iff:
  "shouldRetry msg attempt maxRetries pats \<longleftrightarrow>
     attempt < maxRetries \<and> (\<exists>p \<in> set pats. contains_ignoring_case msg p)"
  by (simp add: shouldRetry_def list_ex_iff contains_ignoring_case_iff)

lemma executeJob_all_retryable:
  assumes "0 \<le> maxRetries_of config"
    and "\<forall>k. int k \<le> maxRetries_of config \<longrightarrow>
           call_operation rt job i outputPath config k = Rejects (errs k) \<and>
           (\<exists>p \<in> set (retryPatterns_of config). contains_ignoring_case (error_text (errs k)) p)"
  shows "executeJob rt job i outputPath config
           = Some (failed_result rt job i (nat (maxRetries_of config + 1))
                     (error_text (errs (nat (maxRetries_of config)))),
                   alternating_trace (retryDelay_of config) (nat (maxRetries_of config)))"
proof -
  let ?M = "maxRetries_of config"
  have rejects: "\<forall>k. int k \<le> ?M \<longrightarrow> call_operation rt job i outputPath config k = Rejects (errs k)"
    using assms(2) by blast
  have step: "step_events config errs k
                = Attempt k # (if k < nat ?M then [Sleep (retryDelay_of config)] else [])"
    if "k \<in> set [0..<Suc (nat ?M)]" for k
  proof -
    from that assms(1) have "int k \<le> ?M" by auto
    with assms(2) have "\<exists>p \<in> set (retryPatterns_of config). contains_ignoring_case (error_text (errs k)) p"
      by blast
    moreover have "(int k < ?M) = (k < nat ?M)" using assms(1) by linarith
    ultimately show ?thesis by (simp add: step_events_def shouldRetry_iff)
  qed
  have "nat (?M + 1) = Suc (nat ?M)" using assms(1) by linarith
  then have "concat (map (step_events config errs) [0..<nat (?M + 1)])
               = concat (map (\<lambda>k. Attempt k # (if k < nat ?M then [Sleep (retryDelay_of config)] else []))
                           [0..<Suc (nat ?M)])"
    using step by (simp only: map_cong [OF refl step])
  also have "\<dots> = alternating_trace (retryDelay_of config) (nat ?M)"
    by (simp only: alternating_trace_upt)
  finally have tr: "concat (map (step_events config errs) [0..<nat (?M + 1)])
                      = alternating_trace (retryDelay_of config) (nat ?M)" .
  show ?thesis
    using executeJob_all_reject [OF rejects assms(1)] tr by simp
qed

text \<open>
  Claim C3: let \<open>m\<close> be the \<open>max_retries\<close> of the retry policy of the batch and \<open>d\<close> its
  \<open>retry_delay_ms\<close> (2 and 1000 when the policy or the field is absent), and let the
  retryable patterns be the \<open>retry_on_errors\<close> of the policy (the four default patterns when
  absent). When every attempt of a job is rejected with a message that contains a retryable
  pattern, case ignored, \<open>executeJob\<close> makes exactly \<open>m + 1\<close> attempts, sleeps \<open>d\<close> between
  consecutive attempts and nowhere else, and returns Failed with the message of the last
  attempt.
\<close>

theorem C3_retryable_failures_use_all_attempts:
  assumes "m = (case retry_policy config of
                  None \<Rightarrow> 2
                | Some pol \<Rightarrow> (case max_retries pol of None \<Rightarrow> 2 | Some v \<Rightarrow> v))"
    and "d = (case retry_policy config of
                None \<Rightarrow> 1000
              | Some pol \<Rightarrow> (case retry_delay_ms pol of None \<Rightarrow> 1000 | Some v \<Rightarrow> v))"
    and "pats = (case retry_policy config of
                   None \<Rightarrow> [''rate_limit'', ''timeout'', ''429'', ''503'']
                 | Some pol \<Rightarrow>
                     (case retry_on_errors pol of
                        None \<Rightarrow> [''rate_limit'', ''timeout'', ''429'', ''503'']
                      | Some ps \<Rightarrow> ps))"
    and "0 \<le> m"
    and "\<forall>k. int k \<le> m \<longrightarrow>
           call_operation rt job i outputPath config k = Rejects (errs k) \<and>
           (\<exists>p \<in> set pats. contains_ignoring_case (error_text (errs k)) p)"
  shows "\<exists>r tr. executeJob rt job i outputPath config = Some (r, tr) \<and>
           status r = Failed \<and>
           error r = Some (error_text (errs (nat m))) \<and>
           tr = alternating_trace d (nat m) \<and>
           attempts tr = [0..<nat m + 1] \<and>
           int (length (attempts tr)) = m + 1"
proof -
  have m: "maxRetries_of config = m" using assms(1) by (simp only: maxRetries_of_policy)
  have d: "retryDelay_of config = d" using assms(2) by (simp only: retryDelay_of_policy)
  have pats: "retryPatterns_of config = pats" using assms(3) by (simp only: retryPatterns_of_policy)
  have "executeJob rt job i outputPath config
          = Some (failed_result rt job i (nat (m + 1)) (error_text (errs (nat m))),
                  alternating_trace d (nat m))"
    using executeJob_all_retryable [of config rt job i outputPath errs] assms(4,5)
    unfolding m d pats by simp
  then show ?thesis
    using assms(4) by (simp add: failed_result_def attempts_alternating)
qed

theorem C3_witness:
  "map_option (\<lambda>(r, tr). (status r, error r, tr))
     (executeJob rt_rate_limited job0 0 ''out.jpg'' cfg_retry)
     = Some (Failed, Some ''HTTP 429 Too Many Requests'',
             [Attempt 0, Sleep 500, Attempt 1, Sleep 500, Attempt 2, Sleep 500, Attempt 3]) \<and>
   map_option (\<lambda>(r, tr). (status r, error r, tr))
     (executeJob rt_rate_limited job0 0 ''out.jpg'' cfg_once)
     = Some (Failed, Some ''HTTP 429 Too Many Requests'', [Attempt 0])"
proof -
  have has: "contains_ignoring_case (error_text rate_limited) ''429''"
  proof -
    have "includes_str (toLowerCase (error_text rate_limited)) (toLowerCase ''429'')"
      unfolding example_defs by code_simp
    then show ?thesis by (simp only: contains_ignoring_case_iff)
  qed
  have msg: "error_text rate_limited = ''HTTP 429 Too Many Requests''"
    by (simp add: rate_limited_def error_text_def)
  have call3: "call_operation rt_rate_limited job0 0 ''out.jpg'' cfg_retry k = Rejects rate_limited"
    for k
    by (simp add: example_defs call_operation_def isEditJob_def)
  have call0: "call_operation rt_rate_limited job0 0 ''out.jpg'' cfg_once k = Rejects rate_limited"
    for k
    by (simp add: example_defs call_operation_def isEditJob_def)
  have t3: "alternating_trace 500 (nat 3)
              = [Attempt 0, Sleep 500, Attempt 1, Sleep 500, Attempt 2, Sleep 500, Attempt 3]"
    by (simp add: numeral_3_eq_3)
  have t0: "alternating_trace 1000 (nat 0) = [Attempt 0]"
    by simp
  have hyp3: "\<forall>k. int k \<le> 3 \<longrightarrow>
      call_operation rt_rate_limited job0 0 ''out.jpg'' cfg_retry k = Rejects rate_limited \<and>
      (\<exists>p \<in> set [''rate_limit'', ''timeout'', ''429'', ''503''].
         contains_ignoring_case (error_text rate_limited) p)"
    using call3 has by simp
  have hyp0: "\<forall>k. int k \<le> 0 \<longrightarrow>
      call_operation rt_rate_limited job0 0 ''out.jpg'' cfg_once k = Rejects rate_limited \<and>
      (\<exists>p \<in> set [''429'']. contains_ignoring_case (error_text rate_limited) p)"
    using call0 has by simp
  have "\<exists>r tr. executeJob rt_rate_limited job0 0 ''out.jpg'' cfg_retry = Some (r, tr) \<and>
           status r = Failed \<and> error r = Some (error_text rate_limited) \<and>
           tr = alternating_trace 500 (nat 3) \<and>
           attempts tr = [0..<nat 3 + 1] \<and> int (length (attempts tr)) = 3 + 1"
    by (rule C3_retryable_failures_use_all_attempts
               [where config = cfg_retry and errs = "\<lambda>k. rate_limited", OF _ _ _ _ hyp3])
       (simp_all add: cfg_retry_def)
  moreover
  have "\<exists>r tr. executeJob rt_rate_limited job0 0 ''out.jpg'' cfg_once = Some (r, tr) \<and>
           status r = Failed \<and> error r = Some (error_text rate_limited) \<and>
           tr = alternating_trace 1000 (nat 0) \<and>
           attempts tr = [0..<nat 0 + 1] \<and> int (length (attempts tr)) = 0 + 1"
    by (rule C3_retryable_failures_use_all_attempts
               [where config = cfg_once and errs = "\<lambda>k. rate_limited", OF _ _ _ _ hyp0])
       (simp_all add: cfg_once_def)
  ultimately show ?thesis
    unfolding t3 t0 msg by auto
qed



text \<open>
  Claim C8: a result returned by \<open>executeJob\<close> is Completed or Failed, never Cancelled;
  and \<open>executeJob\<close> does return whenever none of its calls to the Image Operation stays
  unsettled.
\<close>

theorem C8_executeJob_completed_or_failed:
  "(\<forall>r tr. executeJob rt job i outputPath config = Some (r, tr) \<longrightarrow>
      (status r = Completed \<or> status r = Failed) \<and> status r \<noteq> Cancelled) \<and>
   ((\<forall>k. int k \<le> maxRetries_of config \<longrightarrow>
        call_operation rt job i outputPath config k \<noteq> NeverSettles) \<longrightarrow>
      (\<exists>r tr. executeJob rt job i outputPath config = Some (r, tr)))"
proof (intro conjI allI impI)
  fix r tr
  assume "executeJob rt job i outputPath config = Some (r, tr)"
  then show "status r = Completed \<or> status r = Failed"
    unfolding executeJob_def by (rule executeJob_loop_status)
  then show "status r \<noteq> Cancelled" by auto
next
  assume "\<forall>k. int k \<le> maxRetries_of config \<longrightarrow>
            call_operation rt job i outputPath config k \<noteq> NeverSettles"
  then have "\<exists>y. executeJob_loop rt job i outputPath config 0 [] [] = Some y"
    by (intro executeJob_loop_returns) simp
  then show "\<exists>r tr. executeJob rt job i outputPath config = Some (r, tr)"
    unfolding executeJob_def by auto
qed

theorem C8_witness:
  "(\<exists>r tr. executeJob rt_unauthorized job0 0 ''out.jpg'' cfg0 = Some (r, tr) \<and> status r \<noteq> Cancelled)"
proof -
  have "call_operation rt_unauthorized job0 0 ''out.jpg'' cfg0 k \<noteq> NeverSettles" for k
    by (simp add: example_defs call_operation_def isEditJob_def)
  then show ?thesis
    using C8_executeJob_completed_or_failed [of rt_unauthorized job0 0 "''out.jpg''" cfg0]
    by blast
qed

text \<open>
  Claim C10: a Completed result carries a non-empty list of output paths: the paths
  extracted from the response of the successful call, or, when none was extracted, the
  resolved output path of the job alone.
\<close>

theorem C10_completed_has_output_paths:
  assumes "executeJob rt job i outputPath config = Some (r, tr)"
    and "status r = Completed"
  shows "\<exists>ps k res. output_paths r = Some ps \<and> ps \<noteq> [] \<and>
           call_operation rt job i outputPath config k = Resolves res \<and>
           ps = (if fst (parse_result rt res) = [] then [outputPath]
                 else fst (parse_result rt res))"
proof -
  from assms obtain k res where
    call: "call_operation rt job i outputPath config k = Resolves res" and
    r: "r = completed_result rt job i outputPath k res"
    unfolding executeJob_def by (blast dest: executeJob_loop_completed)
  obtain extracted revised where p: "parse_result rt res = (extracted, revised)"
    by (cases "parse_result rt res")
  let ?ps = "if fst (parse_result rt res) = [] then [outputPath] else fst (parse_result rt res)"
  have "output_paths r = Some ?ps"
    by (simp add: r completed_result_def p)
  moreover have "?ps \<noteq> []" by simp
  ultimately have "output_paths r = Some ?ps \<and> ?ps \<noteq> [] \<and>
      call_operation rt job i outputPath config k = Resolves res \<and> ?ps = ?ps"
    using call by simp
  then show ?thesis by blast
qed

theorem C10_witness:
  "map_option (\<lambda>(r, tr). (status r, output_paths r)) (executeJob rt_ok job0 0 ''out.jpg'' cfg0)
     = Some (Completed, Some [''out.jpg''])"
proof -
  have run: "map_option (\<lambda>(r, tr). status r) (executeJob rt_ok job0 0 ''out.jpg'' cfg0) = Some Completed"
    unfolding example_defs by code_simp
  then obtain r tr where ex: "executeJob rt_ok job0 0 ''out.jpg'' cfg0 = Some (r, tr)"
    and st: "status r = Completed" by auto
  have "fst (parse_result rt_ok res) = []" for res
    by (cases res) (auto simp: example_defs parse_result_def parse_text_def split: option.splits)
  with C10_completed_has_output_paths [OF ex st] have "output_paths r = Some [''out.jpg'']"
    by auto
  with ex st show ?thesis by simp
qed

section \<open>Properties of the semaphore and of executeBatch\<close>

subsection \<open>Semaphore\<close>



subsection \<open>Permits in the batch\<close>


lemma launch_all_Suc: "launch_all c (Suc k) = launch_task (launch_all c k) k"
  by (simp add: launch_all_def)







subsection \<open>Where the tasks are\<close>

lemma tasks_partitioned_launch_task:
  assumes "tasks_partitioned k st"
  shows "tasks_partitioned (Suc k) (launch_task st k)"
proof -
  from assms have fresh: "k \<notin> set (in_flight st)" "k \<notin> set (queue (semaphore st))"
    "k \<notin> set (done_tasks st)"
    unfolding tasks_partitioned_def by auto
  have up: "{0..<Suc k} = insert k {0..<k}" by auto
  show ?thesis
    using assms fresh unfolding tasks_partitioned_def up
    by (auto simp: launch_task_def acquire_def done_tasks_def)
qed

lemma tasks_partitioned_launch_all: "tasks_partitioned k (launch_all c k)"
proof (induction k)
  case 0
  show ?case
    by (simp add: launch_all_def tasks_partitioned_def new_Semaphore_def done_tasks_def)
next
  case (Suc k)
  then show ?case by (simp add: launch_all_Suc tasks_partitioned_launch_task)
qed

lemma tasks_partitioned_settle_task:
  assumes "tasks_partitioned k st" and "i \<in> set (in_flight st)" and "index r = i + 1"
  shows "tasks_partitioned k (settle_task st i r)"
proof -
  from assms(1) have d: "distinct (in_flight st)" unfolding tasks_partitioned_def by simp
  have rm: "set (remove1 i (in_flight st)) = set (in_flight st) - {i}"
    using d by (rule set_remove1_eq)
  have drm: "distinct (remove1 i (in_flight st))" using d by simp
  show ?thesis
  proof (cases "queue (semaphore st)")
    case Nil
    with assms rm drm show ?thesis
      unfolding tasks_partitioned_def
      by (auto simp: settle_task_def release_def done_tasks_def)
  next
    case (Cons w ws)
    with assms rm drm show ?thesis
      unfolding tasks_partitioned_def
      by (auto simp: settle_task_def release_def done_tasks_def)
  qed
qed

lemma executeJob_index:
  "executeJob rt job i outputPath config = Some (r, tr) \<Longrightarrow> index r = i + 1"
  unfolding executeJob_def by (drule executeJob_loop_index) simp

lemma tasks_partitioned_step:
  assumes "tasks_partitioned k st" and "batch_step rt config paths st ev = Some st'"
  shows "tasks_partitioned k st'"
proof (cases ev)
  case (JobSettles i)
  with assms(2) obtain r tr where "i \<in> set (in_flight st)" "st' = settle_task st i r"
    "executeJob rt (jobs config ! i) i (paths ! i) config = Some (r, tr)"
    by (auto simp: batch_step_def split: if_splits option.splits)
  with assms(1) show ?thesis
    by (simp add: tasks_partitioned_settle_task executeJob_index)
next
  case TimerFires
  with assms show ?thesis
    by (auto simp: batch_step_def tasks_partitioned_def done_tasks_def split: if_splits)
qed

lemma tasks_partitioned_run:
  "tasks_partitioned k st \<Longrightarrow> batch_run rt config paths st evs = Some st' \<Longrightarrow>
   tasks_partitioned k st'"
proof (induction evs arbitrary: st)
  case Nil
  then show ?case by simp
next
  case (Cons ev evs)
  then show ?case
    by (auto split: option.splits dest: tasks_partitioned_step)
qed

lemma recorded_indices:
  assumes "tasks_partitioned k st"
  shows "distinct (map index (st_results st)) \<and>
         set (map index (st_results st)) \<subseteq> Suc ` {0..<k}"
proof -
  have pos: "\<forall>r \<in> set (st_results st). 0 < index r"
    using assms by (simp add: tasks_partitioned_def list_all_iff)
  then have eq: "map index (st_results st) = map Suc (done_tasks st)"
    by (simp add: done_tasks_def)
  from assms have "distinct (done_tasks st)" "set (done_tasks st) \<subseteq> {0..<k}"
    unfolding tasks_partitioned_def by auto
  then show ?thesis unfolding eq by (auto simp: distinct_map)
qed


subsection \<open>The report\<close>

lemma concat_map_unless:
  "concat (map (\<lambda>i. if P i then [] else [f i]) xs) = map f (filter (\<lambda>i. \<not> P i) xs)"
  by (induction xs) auto

lemma index_sweep:
  "map index (sweep config rs)
     = map index rs @
       map Suc (filter (\<lambda>i. Suc i \<notin> set (map index rs)) [0..<length (jobs config)])"
  by (simp add: sweep_def concat_map_unless cancelled_result_def o_def)

lemma sweep_covers:
  assumes "distinct (map index rs)" and "set (map index rs) \<subseteq> Suc ` {0..<length (jobs config)}"
  shows "distinct (map index (sweep config rs))"
    and "set (map index (sweep config rs)) = Suc ` {0..<length (jobs config)}"
proof -
  let ?A = "set (map index rs)"
  let ?F = "filter (\<lambda>i. Suc i \<notin> ?A) [0..<length (jobs config)]"
  have "distinct (map Suc ?F)" by (simp add: distinct_map)
  moreover have "?A \<inter> set (map Suc ?F) = {}"
  proof -
    have False if "x \<in> ?A" "x \<in> set (map Suc ?F)" for x
    proof -
      from that(2) obtain i where "x = Suc i" "Suc i \<notin> ?A" by auto
      with that(1) show False by simp
    qed
    then show ?thesis by blast
  qed
  ultimately show "distinct (map index (sweep config rs))"
    using assms(1) unfolding index_sweep by (simp only: distinct_append simp_thms)
  have "set (map Suc ?F) = Suc ` {0..<length (jobs config)} - ?A"
  proof (rule set_eqI)
    fix x
    show "x \<in> set (map Suc ?F) \<longleftrightarrow> x \<in> Suc ` {0..<length (jobs config)} - ?A"
    proof (cases x)
      case 0
      then show ?thesis by auto
    next
      case (Suc i)
      then show ?thesis by auto
    qed
  qed
  then have "?A \<union> set (map Suc ?F) = Suc ` {0..<length (jobs config)}"
    using assms(2) by blast
  then show "set (map index (sweep config rs)) = Suc ` {0..<length (jobs config)}"
    unfolding index_sweep by (simp only: set_append)
qed

lemma sorted_indices:
  assumes "distinct (map index rs)" and "set (map index rs) \<subseteq> Suc ` {0..<length (jobs config)}"
  shows "map index (sort_key index (sweep config rs)) = map Suc [0..<length (jobs config)]"
proof (rule sorted_distinct_set_unique)
  show "sorted (map index (sort_key index (sweep config rs)))" by simp
  show "distinct (map index (sort_key index (sweep config rs)))"
    using sweep_covers(1) [OF assms] by (simp add: distinct_map)
  show "sorted (map Suc [0..<length (jobs config)])"
    by (simp only: map_Suc_upt sorted_upt)
  show "distinct (map Suc [0..<length (jobs config)])"
    by (simp only: map_Suc_upt distinct_upt)
  show "set (map index (sort_key index (sweep config rs)))
          = set (map Suc [0..<length (jobs config)])"
    using sweep_covers(2) [OF assms] by simp
qed

lemma status_counts:
  "length (filter (\<lambda>r. status r = Completed) rs) + length (filter (\<lambda>r. status r = Failed) rs)
     + length (filter (\<lambda>r. status r = Cancelled) rs) = length rs"
proof (induction rs)
  case Nil
  show ?case by simp
next
  case (Cons r rs)
  then show ?case by (cases "status r") auto
qed

lemma count_sorted:
  "length (filter P (sort_key index rs)) = length (filter P rs)"
  by (simp add: filter_sort)

lemma count_sweep:
  "st \<noteq> Cancelled \<Longrightarrow>
   length (filter (\<lambda>r. status r = st) (sweep config rs)) = length (filter (\<lambda>r. status r = st) rs)"
  by (simp add: sweep_def concat_map_unless filter_map o_def cancelled_result_def)

lemma make_report_shape:
  assumes "distinct (map index rs)" and "set (map index rs) \<subseteq> Suc ` {0..<length (jobs config)}"
  shows "map index (results (make_report nenv config rs)) = map Suc [0..<length (jobs config)]"
    and "length (results (make_report nenv config rs)) = length (jobs config)"
    and "succeeded (make_report nenv config rs) + failed (make_report nenv config rs)
           + cancelled (make_report nenv config rs) = length (jobs config)"
proof -
  show idx: "map index (results (make_report nenv config rs)) = map Suc [0..<length (jobs config)]"
    using sorted_indices [OF assms] by (simp add: make_report_def Let_def)
  from arg_cong [OF idx, of length]
  show len: "length (results (make_report nenv config rs)) = length (jobs config)" by simp
  have "succeeded (make_report nenv config rs) + failed (make_report nenv config rs)
          + cancelled (make_report nenv config rs) = length (results (make_report nenv config rs))"
    using status_counts [of "sort_key index (sweep config rs)"]
    by (simp add: make_report_def Let_def)
  with len show "succeeded (make_report nenv config rs) + failed (make_report nenv config rs)
           + cancelled (make_report nenv config rs) = length (jobs config)" by simp
qed

lemma executeBatch_report:
  assumes "executeBatch rt nenv config options evs = Some (Inr (rep, waits))"
  obtains paths st where
    "batch_run rt config paths
       (launch_all (or_num (max_concurrent config) 2) (length (jobs config))) evs = Some st"
    "rep = make_report nenv config (st_results st)"
    "recorded_outcomes rt nenv config options evs = st_results st"
    "waits = (if timedOut st then [grace_period_ms] else [])"
  using assms
  by (auto simp: executeBatch_def recorded_outcomes_def Let_def
           split: sum.splits option.splits if_splits)



lemmas batch_example_defs = example_defs nenv0_def opts0_def cfg2_def rt_first_only_def

lemma timedOut_launch_all: "\<not> timedOut (launch_all c k)"
  by (induction k)
     (auto simp: launch_all_Suc launch_task_def acquire_def launch_all_def)

lemma timedOut_step:
  "batch_step rt config paths st ev = Some st' \<Longrightarrow>
   timedOut st' = (timedOut st \<or> ev = TimerFires)"
  by (cases ev; cases "queue (semaphore st)")
     (auto simp: batch_step_def settle_task_def release_def split: if_splits option.splits)

lemma timedOut_run:
  "batch_run rt config paths st evs = Some st' \<Longrightarrow>
   timedOut st' = (timedOut st \<or> TimerFires \<in> set evs)"
proof (induction evs arbitrary: st)
  case Nil
  then show ?case by simp
next
  case (Cons ev evs)
  then show ?case
    by (auto split: option.splits dest: timedOut_step)
qed

lemma set_sweep:
  "set (sweep config rs)
     = set rs \<union> cancelled_result config ` {i. i < length (jobs config) \<and> Suc i \<notin> set (map index rs)}"
  by (auto simp: sweep_def)

lemma report_missing:
  assumes "distinct (map index rs)" and "set (map index rs) \<subseteq> Suc ` {0..<length (jobs config)}"
    and "i < length (jobs config)" and "Suc i \<notin> set (map index rs)"
  shows "results (make_report nenv config rs) ! i = cancelled_result config i"
proof -
  let ?R = "results (make_report nenv config rs)"
  have idx: "map index ?R = map Suc [0..<length (jobs config)]"
    using assms(1,2) by (rule make_report_shape)
  from arg_cong [OF idx, of length] have len: "length ?R = length (jobs config)" by simp
  have "index (?R ! i) = map index ?R ! i" using assms(3) len by simp
  also have "\<dots> = Suc i" unfolding idx using assms(3) by simp
  finally have at: "index (?R ! i) = Suc i" .
  have "?R ! i \<in> set ?R" using assms(3) len by simp
  then have "?R ! i \<in> set (sweep config rs)" by (simp add: make_report_def Let_def)
  then consider "?R ! i \<in> set rs"
    | j where "?R ! i = cancelled_result config j"
    unfolding set_sweep by blast
  then show ?thesis
  proof cases
    case 1
    then have "index (?R ! i) \<in> set (map index rs)" by simp
    with at assms(4) show ?thesis by simp
  next
    case (2 j)
    with at have "j = i" by (simp add: cancelled_result_def)
    with 2 show ?thesis by simp
  qed
qed

lemma report_counts:
  "succeeded (make_report nenv config rs) = length (filter (\<lambda>r. status r = Completed) rs)"
  "failed (make_report nenv config rs) = length (filter (\<lambda>r. status r = Failed) rs)"
  by (simp_all add: make_report_def Let_def count_sorted count_sweep)


text \<open>
  Claim C5, amended: when the batch timer fires during the race, \<open>executeBatch\<close> waits the
  grace period of 2000 ms once, and then every job with no recorded outcome appears in
  the report, at its own position, as a Cancelled result whose error text is
  \<open>Job cancelled due to timeout\<close>; the succeeded and failed counts are those of the
  outcomes recorded before the sweep.
\<close>

theorem C5_timeout_sweep:
  assumes "executeBatch rt nenv config options evs = Some (Inr (rep, waits))"
    and "TimerFires \<in> set evs"
  shows "waits = [2000] \<and>
         (\<forall>i < length (jobs config).
            i + 1 \<notin> set (map index (recorded_outcomes rt nenv config options evs)) \<longrightarrow>
            results rep ! i =
              \<lparr>index = i + 1, result_prompt = prompt (jobs config ! i), status = Cancelled,
               output_paths = None, error = Some ''Job cancelled due to timeout'',
               duration_ms = None, revised_prompt = None, is_edit = None\<rparr>) \<and>
         succeeded rep
           = length (filter (\<lambda>r. status r = Completed)
                       (recorded_outcomes rt nenv config options evs)) \<and>
         failed rep
           = length (filter (\<lambda>r. status r = Failed)
                       (recorded_outcomes rt nenv config options evs))"
proof -
  from assms(1) obtain paths st where
    run: "batch_run rt config paths
            (launch_all (or_num (max_concurrent config) 2) (length (jobs config))) evs = Some st"
    and rep: "rep = make_report nenv config (st_results st)"
    and rec: "recorded_outcomes rt nenv config options evs = st_results st"
    and waits: "waits = (if timedOut st then [grace_period_ms] else [])"
    by (rule executeBatch_report)
  have "timedOut st"
    using timedOut_run [OF run] assms(2) by simp
  with waits have w: "waits = [2000]" by (simp add: grace_period_ms_def)
  have "tasks_partitioned (length (jobs config)) st"
    using tasks_partitioned_launch_all run by (rule tasks_partitioned_run)
  then have d: "distinct (map index (st_results st))"
    and sub: "set (map index (st_results st)) \<subseteq> Suc ` {0..<length (jobs config)}"
    using recorded_indices by blast+
  have "results rep ! i = cancelled_result config i"
    if "i < length (jobs config)" "i + 1 \<notin> set (map index (st_results st))" for i
    unfolding rep using d sub that by (intro report_missing) simp_all
  then show ?thesis
    unfolding rec using w by (simp add: rep report_counts cancelled_result_def)
qed

theorem C5_witness:
  "\<exists>rep. executeBatch rt_first_only nenv0 cfg2 opts0 [JobSettles 0, TimerFires]
            = Some (Inr (rep, [2000])) \<and>
         results rep ! 1 =
           \<lparr>index = 2, result_prompt = ''a dog'', status = Cancelled, output_paths = None,
            error = Some ''Job cancelled due to timeout'', duration_ms = None,
            revised_prompt = None, is_edit = None\<rparr> \<and>
         succeeded rep = 1 \<and> failed rep = 0"
proof -
  have "map_option isl (executeBatch rt_first_only nenv0 cfg2 opts0 [JobSettles 0, TimerFires])
          = Some False"
    unfolding batch_example_defs by code_simp
  then obtain z where
    z: "executeBatch rt_first_only nenv0 cfg2 opts0 [JobSettles 0, TimerFires] = Some z"
    and "\<not> isl z" by auto
  then obtain rep waits where
    run: "executeBatch rt_first_only nenv0 cfg2 opts0 [JobSettles 0, TimerFires]
            = Some (Inr (rep, waits))"
    by (cases z) auto
  have rec: "map index (recorded_outcomes rt_first_only nenv0 cfg2 opts0 [JobSettles 0, TimerFires])
               = [1]"
    "map status (recorded_outcomes rt_first_only nenv0 cfg2 opts0 [JobSettles 0, TimerFires])
       = [Completed]"
    unfolding batch_example_defs by code_simp+
  have cnt: "length (filter (\<lambda>r. status r = st) rs) = length (filter (\<lambda>s. s = st) (map status rs))"
    for st and rs :: "BatchJobResult list"
    by (induction rs) auto
  have jobs: "length (jobs cfg2) = 2" "prompt (jobs cfg2 ! Suc 0) = ''a dog''"
    by (simp_all add: cfg2_def)
  have timer: "TimerFires \<in> set [JobSettles 0, TimerFires]" by simp
  from C5_timeout_sweep [OF run timer] run show ?thesis
    by (simp add: rec cnt jobs)
qed

text \<open>
  As claim C5 is worded, the reason of the synthesized outcome would be the text
  \<open>timeout\<close>. A batch of one job whose call never settles, with the timer firing, is
  reported with one Cancelled result whose error text is not \<open>timeout\<close>.
\<close>

theorem C5_counterexample:
  "map status (results (fst (projr (the (executeBatch rt_base nenv0 cfg0 opts0 [TimerFires])))))
     = [Cancelled] \<and>
   map error (results (fst (projr (the (executeBatch rt_base nenv0 cfg0 opts0 [TimerFires])))))
     \<noteq> [Some ''timeout'']"
  unfolding batch_example_defs by code_simp



section \<open>Properties of estimateBatchCost\<close>

subsection \<open>The first loop\<close>









subsection \<open>The second loop\<close>


subsection \<open>Keys and groups\<close>











subsection \<open>The estimate\<close>















end
